theory Spec2Isabelle
  imports Complex_Main "HOL-Library.Word"
begin

section \<open>Data model of det_multi_main.cpp\<close>

text \<open>
  The program is the single function \<open>main\<close> of
  \<^verbatim>\<open>src/mlpack/methods/det/det_multi_main.cpp\<close>. It loads a list of density
  estimation trees, binds an input and an output stream, and for every input line
  writes the weighted average of the trees' values at the point on that line.

  \<open>size_t\<close> is taken as an unsigned 64-bit integer.
\<close>

type_synonym size_t = "64 word"

text \<open>
  A loaded tree (\<open>DET*\<close>, line 47), seen through the four members that \<open>main\<close> uses:
  \<open>MaxVals().n_elem\<close> (line 81), \<open>Start()\<close> and \<open>End()\<close> (line 153) and
  \<open>ComputeValue\<close> (line 152). The type \<open>'d\<close> stands for \<open>double\<close>.
\<close>

record 'd DET =
  MaxVals_n_elem :: size_t
  Start :: size_t
  End :: size_t
  ComputeValue :: "'d list \<Rightarrow> 'd"

text \<open>
  The logging channels of \<open>Log\<close>. One entry is one statement's chain of \<open><<\<close>: the
  channel and the pieces written to it.
\<close>

datatype level = Info | Warn | Fatal | AssertFailed

datatype piece = Str string | Num nat

type_synonym entry = "level \<times> piece list"

section \<open>Loading the models (lines 62 to 84)\<close>

text \<open>
  The variables the loading loop updates: the vector \<open>models\<close>, the running maximum
  \<open>dataSize\<close>, and what has been written to the log.
\<close>

record 'd loader =
  models :: "'d DET list"
  dataSize :: size_t
  msgs :: "entry list"

definition loader_init :: "nat \<Rightarrow> 'd loader" where
  "loader_init n =
     \<lparr>models = [], dataSize = 0,
      msgs = [(Info, [Num n, Str '' models provided.''])]\<rparr>"

text \<open>
  \<open>data::Load\<close> is outside the source file: it is the parameter \<open>Load\<close>, and
  \<open>Load f = None\<close> is a null \<open>tree\<close> after the call, which is what line 75 tests.
\<close>

fun load_models ::
  "(string \<Rightarrow> 'd DET option) \<Rightarrow> string list \<Rightarrow> 'd loader \<Rightarrow> 'd loader" where
  "load_models Load [] st = st"
| "load_models Load (f # fs) st =
     (let st1 = st\<lparr>msgs := msgs st @ [(Info, [Str ''Model loading '', Str f, Str ''...''])]\<rparr>
      in case Load f of
           None \<Rightarrow>
             load_models Load fs
               (st1\<lparr>msgs := msgs st1 @ [(Warn, [Str '' failed loading '', Str f])]\<rparr>)
         | Some tree \<Rightarrow>
             load_models Load fs
               (st1\<lparr>msgs := msgs st1 @ [(Info, [Str '' done.''])],
                    models := models st1 @ [tree],
                    dataSize := max (dataSize st1) (MaxVals_n_elem tree)\<rparr>))"

text \<open>The warnings of a log, and the identifiers a log reports a loading attempt for.\<close>

definition warnings :: "entry list \<Rightarrow> entry list" where
  "warnings es = filter (\<lambda>e. fst e = Warn) es"

fun attempted :: "entry list \<Rightarrow> string list" where
  "attempted [] = []"
| "attempted ((Info, [Str a, Str f, Str b]) # es) =
     (if a = ''Model loading '' \<and> b = ''...'' then f # attempted es else attempted es)"
| "attempted (e # es) = attempted es"

definition failing :: "(string \<Rightarrow> 'd DET option) \<Rightarrow> string list \<Rightarrow> string list" where
  "failing Load files = filter (\<lambda>f. Load f = None) files"

section \<open>String streams and numeric extraction (lines 132 to 138)\<close>

text \<open>
  A stream of the standard library, as far as \<open>main\<close> observes it: the characters not
  yet read and the two state bits that \<open>good()\<close> and \<open>eof()\<close> test.
\<close>

record iostream =
  rdbuf :: string
  eofbit :: bool
  failbit :: bool

definition stream_of :: "string \<Rightarrow> iostream" where
  "stream_of cs = \<lparr>rdbuf = cs, eofbit = False, failbit = False\<rparr>"

definition good :: "iostream \<Rightarrow> bool" where
  "good s = (\<not> eofbit s \<and> \<not> failbit s)"

definition newline :: char where
  "newline = CHR 0x0A"

text \<open>\<open>isspace\<close> and \<open>isdigit\<close> of the classic locale.\<close>

definition isspace :: "char \<Rightarrow> bool" where
  "isspace c = (c \<in> set [CHR '' '', CHR 0x09, CHR 0x0A, CHR 0x0B, CHR 0x0C, CHR 0x0D])"

definition isdigit :: "char \<Rightarrow> bool" where
  "isdigit c = (c \<in> set ''0123456789'')"

text \<open>
  The field that \<open>operator>>(double&)\<close> accumulates (stage 2 of \<open>num_get\<close>): an
  optional sign, then digits with at most one decimal point, then at most one exponent
  mark, which needs a digit before it and may be followed by a sign. Accumulation stops
  at the first character that cannot continue the field; that character stays in the
  stream. The flags are: a digit has been seen, a point has been seen, an exponent mark
  has been seen. The result is the field and the characters left.
\<close>

fun scan_float :: "bool \<Rightarrow> bool \<Rightarrow> bool \<Rightarrow> string \<Rightarrow> string \<times> string" where
  "scan_float fm fd fs [] = ([], [])"
| "scan_float fm fd fs (c # cs) =
     (if isdigit c then
        (case scan_float True fd fs cs of (x, r) \<Rightarrow> (c # x, r))
      else if c = CHR ''.'' \<and> \<not> fd \<and> \<not> fs then
        (case scan_float fm True fs cs of (x, r) \<Rightarrow> (c # x, r))
      else if (c = CHR ''e'' \<or> c = CHR ''E'') \<and> \<not> fs \<and> fm then
        (case cs of
           [] \<Rightarrow> ([c], [])
         | s # cs' \<Rightarrow>
             if s = CHR ''+'' \<or> s = CHR ''-'' then
               (case scan_float fm fd True cs' of (x, r) \<Rightarrow> (c # s # x, r))
             else
               (case scan_float fm fd True cs of (x, r) \<Rightarrow> (c # x, r)))
      else ([], c # cs))"

definition num_get_field :: "string \<Rightarrow> string \<times> string" where
  "num_get_field cs =
     (case cs of
        [] \<Rightarrow> ([], [])
      | c # cs' \<Rightarrow>
          if c = CHR ''+'' \<or> c = CHR ''-'' then
            (case scan_float False False False cs' of (x, r) \<Rightarrow> (c # x, r))
          else scan_float False False False cs)"

text \<open>
  Stage 3 converts the field with \<open>strtod\<close>. Its three outcomes, as C++11 has them
  (the source is C++11: line 62 closes two template argument lists with \<open>>>\<close>): the
  field is a number in range, and its value is stored; the field is a number too large in
  magnitude, and the largest finite value of its sign is stored; the field is not a
  number, and zero is stored. The last two set \<open>failbit\<close>. The conversion itself is a
  parameter of the model.
\<close>

datatype 'd conv = Converted 'd | OutOfRange 'd | Invalid

text \<open>
  \<open>line_stream >> x\<close>. The sentry fails on a stream that is not good, and on one that
  holds only whitespace; in both cases \<open>x\<close> keeps its value. \<open>eofbit\<close> is set when the
  end of the buffer has been reached.
\<close>

definition extract_double ::
  "(string \<Rightarrow> 'd conv) \<Rightarrow> iostream \<Rightarrow> 'd::zero \<Rightarrow> iostream \<times> 'd" where
  "extract_double strtod s x =
     (if \<not> good s then (s\<lparr>failbit := True\<rparr>, x)
      else
        (let cs = dropWhile isspace (rdbuf s) in
         if cs = [] then (\<lparr>rdbuf = [], eofbit = True, failbit = True\<rparr>, x)
         else
           (case num_get_field cs of
              (field, rest) \<Rightarrow>
                (case strtod field of
                   Converted v \<Rightarrow> (\<lparr>rdbuf = rest, eofbit = (rest = []), failbit = False\<rparr>, v)
                 | OutOfRange v \<Rightarrow> (\<lparr>rdbuf = rest, eofbit = (rest = []), failbit = True\<rparr>, v)
                 | Invalid \<Rightarrow> (\<lparr>rdbuf = rest, eofbit = (rest = []), failbit = True\<rparr>, 0)))))"

text \<open>
  The loop of line 137:
  \<^verbatim>\<open>for (size_t i = 0; !line_stream.eof() && i < dataSize; ++i) line_stream >> data.at(i);\<close>
\<close>

function read_coords ::
  "(string \<Rightarrow> 'd conv) \<Rightarrow> nat \<Rightarrow> nat \<Rightarrow> iostream \<Rightarrow> 'd::zero list \<Rightarrow> 'd list" where
  "read_coords strtod n i s data =
     (if \<not> eofbit s \<and> i < n then
        (case extract_double strtod s (data ! i) of
           (s', v) \<Rightarrow> read_coords strtod n (Suc i) s' (data[i := v]))
      else data)"
  by pat_completeness auto
termination
  by (relation "measure (\<lambda>(strtod, n, i, s, data). n - i)") auto

text \<open>Lines 132 to 138: the point read from one line; \<open>n\<close> is \<open>dataSize\<close>.\<close>

definition parse_record :: "(string \<Rightarrow> 'd conv) \<Rightarrow> size_t \<Rightarrow> string \<Rightarrow> 'd::zero list" where
  "parse_record strtod n line_string =
     read_coords strtod (unat n) 0 (stream_of line_string) (replicate (unat n) 0)"

section \<open>The reduction over the models (lines 140 to 158)\<close>

text \<open>
  The arithmetic of \<open>double\<close> (type \<open>'d\<close>) and \<open>long double\<close> (type \<open>'ld\<close>) is
  not interpreted: \<open>+\<close>, \<open>*\<close> and \<open>/\<close> on \<open>'ld\<close> are operations without laws, and
  the conversions are parameters: \<open>(long double)val\<close>, the conversion of a \<open>size_t\<close>
  operand to \<open>long double\<close>, and \<open>(double)density\<close>.
\<close>

record ('d, 'ld) arith =
  widen :: "'d \<Rightarrow> 'ld"
  of_size :: "size_t \<Rightarrow> 'ld"
  narrow :: "'ld \<Rightarrow> 'd"

text \<open>
  The loop is an OpenMP \<open>parallel for default(shared)\<close> with no \<open>reduction\<close>,
  \<open>atomic\<close> or \<open>critical\<close>. \<open>density\<close> and \<open>count\<close> are declared outside the
  loop and so are shared by the workers; \<open>model\<close>, \<open>val\<close> and \<open>cnt\<close> are
  private to an iteration. Each of the two compound assignments of an iteration is a
  read of the shared variable followed by a write to it, and the reads and writes of
  different iterations may interleave.
\<close>

datatype step = LoadDensity nat | StoreDensity nat | LoadCount nat | StoreCount nat

record 'ld reduction =
  density :: 'ld
  count :: size_t
  density_read :: "nat \<Rightarrow> 'ld"
  count_read :: "nat \<Rightarrow> size_t"

definition cnt_of :: "'d DET \<Rightarrow> size_t" where
  "cnt_of model = End model - Start model"

definition term_of :: "('d, 'ld::times) arith \<Rightarrow> 'd DET \<Rightarrow> 'd list \<Rightarrow> 'ld" where
  "term_of ar model data = widen ar (ComputeValue model data) * of_size ar (cnt_of model)"

fun exec_step ::
  "('d, 'ld::{plus,times}) arith \<Rightarrow> 'd DET list \<Rightarrow> 'd list \<Rightarrow> 'ld reduction \<Rightarrow> step \<Rightarrow>
     'ld reduction" where
  "exec_step ar ms data st (LoadDensity m) =
     st\<lparr>density_read := (density_read st)(m := density st)\<rparr>"
| "exec_step ar ms data st (StoreDensity m) =
     st\<lparr>density := density_read st m + term_of ar (ms ! m) data\<rparr>"
| "exec_step ar ms data st (LoadCount m) =
     st\<lparr>count_read := (count_read st)(m := count st)\<rparr>"
| "exec_step ar ms data st (StoreCount m) =
     st\<lparr>count := count_read st m + cnt_of (ms ! m)\<rparr>"

definition reduction_init :: "'ld::zero reduction" where
  "reduction_init =
     \<lparr>density = 0, count = 0, density_read = (\<lambda>m. 0), count_read = (\<lambda>m. 0)\<rparr>"

definition run_reduction ::
  "('d, 'ld::{zero,plus,times}) arith \<Rightarrow> step list \<Rightarrow> 'd DET list \<Rightarrow> 'd list \<Rightarrow>
     'ld reduction" where
  "run_reduction ar sched ms data = foldl (exec_step ar ms data) reduction_init sched"

text \<open>Lines 140 to 160: the value written for one point.\<close>

definition Evaluate ::
  "('d, 'ld::{zero,plus,times,inverse}) arith \<Rightarrow> step list \<Rightarrow> 'd DET list \<Rightarrow> 'd list \<Rightarrow> 'd" where
  "Evaluate ar sched ms data =
     (let st = run_reduction ar sched ms data
      in narrow ar (density st / of_size ar (count st)))"

text \<open>
  The executions of the loop over \<open>n\<close> models: every step belongs to an iteration below
  \<open>n\<close>, and the steps of each iteration are its four steps in program order.
\<close>

fun iteration :: "step \<Rightarrow> nat" where
  "iteration (LoadDensity m) = m"
| "iteration (StoreDensity m) = m"
| "iteration (LoadCount m) = m"
| "iteration (StoreCount m) = m"

definition body :: "nat \<Rightarrow> step list" where
  "body m = [LoadDensity m, StoreDensity m, LoadCount m, StoreCount m]"

definition interleaving :: "nat \<Rightarrow> step list \<Rightarrow> bool" where
  "interleaving n sched =
     (list_all (\<lambda>x. iteration x < n) sched \<and>
      list_all (\<lambda>m. filter (\<lambda>x. iteration x = m) sched = body m) [0..<n])"

text \<open>The execution in which the iterations run one after the other, in index order.\<close>

definition serial :: "nat \<Rightarrow> step list" where
  "serial n = concat (map body [0..<n])"

text \<open>
  The combined estimate in the words of the specification: the sum of value times weight
  and the sum of the weights, each taken over the models in their order, the first in
  \<open>long double\<close>, and the quotient narrowed at the end.
\<close>

definition weighted_sum :: "('d, 'ld::{zero,plus,times}) arith \<Rightarrow> 'd DET list \<Rightarrow> 'd list \<Rightarrow> 'ld" where
  "weighted_sum ar ms data = foldl (\<lambda>a model. a + term_of ar model data) 0 ms"

definition total_weight :: "'d DET list \<Rightarrow> size_t" where
  "total_weight ms = foldl (\<lambda>c model. c + cnt_of model) 0 ms"

definition weighted_average ::
  "('d, 'ld::{zero,plus,times,inverse}) arith \<Rightarrow> 'd DET list \<Rightarrow> 'd list \<Rightarrow> 'd" where
  "weighted_average ar ms data =
     narrow ar (weighted_sum ar ms data / of_size ar (total_weight ms))"

section \<open>The record loop (lines 126 to 161)\<close>

text \<open>
  \<open>std::getline\<close> on a good stream: the characters up to the next newline, which is
  consumed and not stored. Reaching the end of the stream sets \<open>eofbit\<close>, and
  \<open>failbit\<close> too when nothing was extracted.
\<close>

definition getline :: "iostream \<Rightarrow> string \<times> iostream" where
  "getline s =
     (let l = takeWhile (\<lambda>c. c \<noteq> newline) (rdbuf s) in
      case dropWhile (\<lambda>c. c \<noteq> newline) (rdbuf s) of
        [] \<Rightarrow> (l, \<lparr>rdbuf = [], eofbit = True, failbit = (l = [])\<rparr>)
      | c # r \<Rightarrow> (l, s\<lparr>rdbuf := r\<rparr>))"

text \<open>
  The loop, with the values written to \<open>output\<close> as its result. \<open>ev k data\<close> is the
  value that lines 140 to 158 compute for the \<open>k\<close>-th record.
\<close>

function record_loop ::
  "(string \<Rightarrow> 'd conv) \<Rightarrow> size_t \<Rightarrow> (nat \<Rightarrow> 'd list \<Rightarrow> 'd) \<Rightarrow> nat \<Rightarrow> iostream \<Rightarrow> 'd::zero list \<Rightarrow>
     'd list" where
  "record_loop strtod n ev k inp out =
     (if good inp then
        (case getline inp of
           (line_string, inp') \<Rightarrow>
             if length line_string = 0 then out
             else record_loop strtod n ev (Suc k) inp'
                    (out @ [ev k (parse_record strtod n line_string)]))
      else out)"
  by pat_completeness auto
termination
proof (relation "measure (\<lambda>(strtod, n, ev, k, inp, out).
                   if good inp then Suc (length (rdbuf inp)) else 0)", goal_cases)
  case 1
  show ?case by simp
next
  case 2
  have aux: "length r < length xs" if "dropWhile (\<lambda>c. c \<noteq> newline) xs = c # r"
    for xs r and c :: char
    using that length_dropWhile_le [of "\<lambda>c. c \<noteq> newline" xs] by simp
  from 2 show ?case
    by (auto simp: getline_def good_def Let_def split: list.splits dest: aux)
qed

section \<open>The program (lines 53 to 165)\<close>

text \<open>
  What \<open>main\<close> reads from its environment: the three command-line parameters
  (\<open>None\<close> when \<open>CLI::HasParam\<close> is false), \<open>data::Load\<close>, the file system as
  \<open>ifstream\<close> and \<open>ofstream\<close> see it (the content of a file that opens for reading,
  and whether a file opens for writing), the standard input, \<open>strtod\<close>, the
  floating-point arithmetic, and the interleaving that the OpenMP runtime picks for the
  \<open>k\<close>-th record.
\<close>

record ('d, 'ld) env =
  model_file :: "string list option"
  test_file :: "string option"
  estimates_file :: "string option"
  data_Load :: "string \<Rightarrow> 'd DET option"
  ifstream_open :: "string \<Rightarrow> string option"
  ofstream_open :: "string \<Rightarrow> bool"
  cin :: string
  strtod_fn :: "string \<Rightarrow> 'd conv"
  arithmetic :: "('d, 'ld) arith"
  omp_schedule :: "nat \<Rightarrow> step list"

text \<open>
  What a run leaves behind: whether \<open>main\<close> returned or the process was terminated,
  the log, the values written to the output, and the file they went to (\<open>None\<close> for
  the standard output).
\<close>

datatype status = Returned | Terminated

record 'd run =
  exit_status :: status
  diagnostics :: "entry list"
  estimates :: "'d list"
  sink :: "string option"

text \<open>
  Modelled from the spec: \<open>Log::Fatal\<close> is not in the source file. Section 7 of the
  specification: a fatal condition terminates the entire process immediately with a
  diagnostic. \<open>es\<close> is the log so far.
\<close>

definition Log_Fatal :: "entry list \<Rightarrow> piece list \<Rightarrow> 'd run" where
  "Log_Fatal es ps =
     \<lparr>exit_status = Terminated, diagnostics = es @ [(Fatal, ps)], estimates = [], sink = None\<rparr>"

text \<open>
  Modelled from the spec: \<open>Log::Assert\<close> is not in the source file. Section 4.1 of the
  specification: a false postcondition check is fatal, no further processing is
  possible. The text of its diagnostic is not known.
\<close>

definition Log_Assert :: "bool \<Rightarrow> entry list \<Rightarrow> 'd run \<Rightarrow> 'd run" where
  "Log_Assert condition es continue =
     (if condition then continue
      else \<lparr>exit_status = Terminated, diagnostics = es @ [(AssertFailed, [])],
            estimates = [], sink = None\<rparr>)"

text \<open>Lines 107 to 161: binding the output, then the record loop.\<close>

definition main_output ::
  "('d::zero, 'ld::{zero,plus,times,inverse}) env \<Rightarrow> 'd loader \<Rightarrow> entry list \<Rightarrow> iostream \<Rightarrow> 'd run" where
  "main_output e st es input =
     (let written =
            record_loop (strtod_fn e) (dataSize st)
              (\<lambda>k data. Evaluate (arithmetic e) (omp_schedule e k) (models st) data) 0 input []
      in case estimates_file e of
           None \<Rightarrow>
             \<lparr>exit_status = Returned,
              diagnostics =
                es @ [(Info, [Str ''The estimation will be printed on the standard output.''])],
              estimates = written, sink = None\<rparr>
         | Some fName \<Rightarrow>
             if \<not> ofstream_open e fName then
               Log_Fatal es [Str ''Failed to open '', Str fName, Str '' for writing!'']
             else
               \<lparr>exit_status = Returned, diagnostics = es, estimates = written,
                sink = Some fName\<rparr>)"

text \<open>Lines 53 to 105, continued by \<open>main_output\<close>.\<close>

definition main :: "('d::zero, 'ld::{zero,plus,times,inverse}) env \<Rightarrow> 'd run" where
  "main e =
     (case model_file e of
        None \<Rightarrow>
          Log_Fatal []
            [Str ''You need an already built model(s), in order to '',
             Str ''run the estimation!'']
      | Some modelFiles \<Rightarrow>
          (let st = load_models (data_Load e) modelFiles (loader_init (length modelFiles))
           in Log_Assert (dataSize st > 0) (msgs st)
                (case test_file e of
                   None \<Rightarrow>
                     main_output e st
                       (msgs st @
                        [(Info, [Str ''The estimation will operate on the standard input.''])])
                       (stream_of (cin e))
                 | Some fName \<Rightarrow>
                     (let es = msgs st @ [(Info, [Str ''Processing '', Str fName, Str ''...''])]
                      in case ifstream_open e fName of
                           None \<Rightarrow> Log_Fatal es [Str '' failed!'']
                         | Some content \<Rightarrow>
                             main_output e st (es @ [(Info, [Str '' done.''])])
                               (stream_of content)))))"

section \<open>Notions of the specification\<close>

text \<open>
  The lines of a stream: the runs of characters between newlines. The records are the
  lines before the first empty line.
\<close>

fun split_lines :: "string \<Rightarrow> string list" where
  "split_lines [] = [[]]"
| "split_lines (c # cs) =
     (if c = newline then [] # split_lines cs
      else (case split_lines cs of
              [] \<Rightarrow> [[c]]
            | l # ls \<Rightarrow> (c # l) # ls))"

definition records_of :: "string \<Rightarrow> string list" where
  "records_of content = takeWhile (\<lambda>l. l \<noteq> []) (split_lines content)"

text \<open>
  A record in the format of section 6 of the specification: numeric tokens delimited by
  whitespace. A token is numeric when it is, as a whole, one field of the extraction
  and its conversion succeeds. A record is given by its tokens, each with the whitespace
  before it, and the whitespace after the last token.
\<close>

definition numeric :: "(string \<Rightarrow> 'd conv) \<Rightarrow> string \<Rightarrow> bool" where
  "numeric strtod t =
     (t \<noteq> [] \<and> num_get_field t = (t, []) \<and>
      (case strtod t of Converted v \<Rightarrow> True | OutOfRange v \<Rightarrow> False | Invalid \<Rightarrow> False))"

definition stored :: "(string \<Rightarrow> 'd conv) \<Rightarrow> string \<Rightarrow> 'd::zero" where
  "stored strtod t = (case strtod t of Converted v \<Rightarrow> v | OutOfRange v \<Rightarrow> v | Invalid \<Rightarrow> 0)"

text \<open>An extraction fails on a field when the conversion of the field does not succeed.\<close>

definition failed :: "(string \<Rightarrow> 'd conv) \<Rightarrow> string \<Rightarrow> bool" where
  "failed strtod field =
     (case strtod field of Converted v \<Rightarrow> False | OutOfRange v \<Rightarrow> True | Invalid \<Rightarrow> True)"

definition blank :: "string \<Rightarrow> bool" where
  "blank w = list_all isspace w"

definition tokens_line :: "(string \<times> string) list \<Rightarrow> string \<Rightarrow> string" where
  "tokens_line wts trailing = concat (map (\<lambda>(w, t). w @ t) wts) @ trailing"

definition delimited :: "(string \<times> string) list \<Rightarrow> bool" where
  "delimited wts =
     (list_all (\<lambda>(w, t). blank w) wts \<and> list_all (\<lambda>(w, t). w \<noteq> []) (tl wts))"

text \<open>
  The input and the output are bound when the standard stream is used or the named file
  opens; \<open>input_content\<close> is then what the input holds.
\<close>

definition input_content :: "('d, 'ld) env \<Rightarrow> string option" where
  "input_content e =
     (case test_file e of None \<Rightarrow> Some (cin e) | Some fName \<Rightarrow> ifstream_open e fName)"

definition output_bound :: "('d, 'ld) env \<Rightarrow> bool" where
  "output_bound e =
     (case estimates_file e of None \<Rightarrow> True | Some fName \<Rightarrow> ofstream_open e fName)"

section \<open>Instances for evaluating examples\<close>

text \<open>
  A conversion for decimal fields: the exact value of the field as a real number, with
  the finite range of a binary64 \<open>double\<close>. Rounding to the nearest \<open>double\<close> is not
  modelled.
\<close>

definition DBL_MAX :: real where
  "DBL_MAX = (2 ^ 53 - 1) * 2 ^ 971"

definition in_range :: "real \<Rightarrow> real conv" where
  "in_range x =
     (if DBL_MAX < x then OutOfRange DBL_MAX
      else if x < - DBL_MAX then OutOfRange (- DBL_MAX)
      else Converted x)"

definition digit_value :: "char \<Rightarrow> nat" where
  "digit_value c = of_char c - 48"

definition decimal :: "string \<Rightarrow> nat" where
  "decimal ds = foldl (\<lambda>a c. 10 * a + digit_value c) 0 ds"

definition strip_sign :: "string \<Rightarrow> bool \<times> string" where
  "strip_sign s =
     (case s of
        [] \<Rightarrow> (False, [])
      | c # r \<Rightarrow>
          if c = CHR ''-'' then (True, r)
          else if c = CHR ''+'' then (False, r)
          else (False, s))"

definition strtod_dec :: "string \<Rightarrow> real conv" where
  "strtod_dec s =
     (case strip_sign s of
        (neg, s1) \<Rightarrow>
          (let ip = takeWhile isdigit s1;
               s2 = dropWhile isdigit s1;
               fp = (case s2 of [] \<Rightarrow> [] | c # r \<Rightarrow> if c = CHR ''.'' then takeWhile isdigit r else []);
               s3 = (case s2 of [] \<Rightarrow> [] | c # r \<Rightarrow> if c = CHR ''.'' then dropWhile isdigit r else s2);
               m = (if neg then - 1 else 1) * real (decimal (ip @ fp)) / 10 ^ length fp
           in if ip = [] \<and> fp = [] then Invalid
              else
                (case s3 of
                   [] \<Rightarrow> in_range m
                 | c # r \<Rightarrow>
                     if c = CHR ''e'' \<or> c = CHR ''E'' then
                       (case strip_sign r of
                          (eneg, ds) \<Rightarrow>
                            if ds \<noteq> [] \<and> list_all isdigit ds then
                              in_range (if eneg then m / 10 ^ decimal ds else m * 10 ^ decimal ds)
                            else Invalid)
                     else Invalid)))"

text \<open>Arithmetic without rounding, on the real numbers.\<close>

definition exact :: "(real, real) arith" where
  "exact = \<lparr>widen = (\<lambda>x. x), of_size = (\<lambda>n. real (unat n)), narrow = (\<lambda>x. x)\<rparr>"

text \<open>A tree of constant value \<open>v\<close>, dimension \<open>d\<close> and weight \<open>w\<close>.\<close>

definition const_tree :: "real \<Rightarrow> size_t \<Rightarrow> size_t \<Rightarrow> real DET" where
  "const_tree v d w = \<lparr>MaxVals_n_elem = d, Start = 0, End = w, ComputeValue = (\<lambda>data. v)\<rparr>"

text \<open>
  Two models of weights 3 and 1 and values 2/5 and 4/5, and an execution of the loop by
  two workers in which both read each accumulator before either writes it.
\<close>

definition two_models :: "real DET list" where
  "two_models = [const_tree (2 / 5) 2 3, const_tree (4 / 5) 1 1]"

definition racy :: "step list" where
  "racy =
     [LoadDensity 0, LoadDensity 1, StoreDensity 0, StoreDensity 1,
      LoadCount 0, LoadCount 1, StoreCount 0, StoreCount 1]"

text \<open>
  An environment: three model files of which the second does not load, the points on
  the standard input, and the workers running one after the other.
\<close>

definition demo_Load :: "string \<Rightarrow> real DET option" where
  "demo_Load f =
     (if f = ''a.xml'' then Some (const_tree (2 / 5) 2 3)
      else if f = ''b.xml'' then Some (const_tree (4 / 5) 1 1)
      else None)"

definition demo_env :: "(real, real) env" where
  "demo_env =
     \<lparr>model_file = Some [''a.xml'', ''missing.xml'', ''b.xml''],
      test_file = None, estimates_file = None,
      data_Load = demo_Load,
      ifstream_open = (\<lambda>f. if f = ''points.txt'' then Some (''1 2'' @ [newline]) else None),
      ofstream_open = (\<lambda>f. f = ''out.txt''),
      cin = ''1 2'' @ [newline] @ ''3'' @ [newline] @ [newline] @ ''4 4'' @ [newline],
      strtod_fn = strtod_dec,
      arithmetic = exact,
      omp_schedule = (\<lambda>k. serial 2)\<rparr>"

section \<open>Auxiliary notions\<close>

text \<open>
  The third branch of \<open>scan_float\<close>: the character is an exponent mark that is
  accepted in the state given by the flags.
\<close>

definition exp_mark :: "bool \<Rightarrow> bool \<Rightarrow> bool \<Rightarrow> char \<Rightarrow> bool" where
  "exp_mark fm fd fs c =
     (\<not> isdigit c \<and> \<not> (c = CHR ''.'' \<and> \<not> fd \<and> \<not> fs) \<and>
      (c = CHR ''e'' \<or> c = CHR ''E'') \<and> \<not> fs \<and> fm)"

text \<open>The stream after a successful extraction that leaves \<open>rest\<close> unread.\<close>

definition after :: "string \<Rightarrow> iostream" where
  "after rest = \<lparr>rdbuf = rest, eofbit = (rest = []), failbit = False\<rparr>"

declare record_loop.simps [simp del] read_coords.simps [simp del]

section \<open>Properties of the loading loop\<close>

lemma load_models_models:
  "models (load_models Load fs st) = models st @ List.map_filter Load fs"
  by (induction fs arbitrary: st) (simp_all add: List.map_filter_simps Let_def split: option.split)

lemma load_models_dataSize:
  "dataSize (load_models Load fs st) =
     fold max (map MaxVals_n_elem (List.map_filter Load fs)) (dataSize st)"
  by (induction fs arbitrary: st)
     (simp_all add: List.map_filter_simps Let_def max.commute split: option.split)

lemma warnings_append: "warnings (xs @ ys) = warnings xs @ warnings ys"
  by (simp add: warnings_def)

lemma load_models_warnings:
  "warnings (msgs (load_models Load fs st)) =
     warnings (msgs st) @ map (\<lambda>f. (Warn, [Str '' failed loading '', Str f])) (failing Load fs)"
  by (induction fs arbitrary: st)
     (simp_all add: failing_def warnings_def Let_def split: option.split)

lemma attempted_append: "attempted (xs @ ys) = attempted xs @ attempted ys"
  by (induction xs rule: attempted.induct) simp_all

lemma load_models_attempted:
  "attempted (msgs (load_models Load fs st)) = attempted (msgs st) @ fs"
  by (induction fs arbitrary: st)
     (simp_all add: attempted_append Let_def split: option.split)

lemma length_map_filter_failing:
  "length (List.map_filter Load fs) = length fs - length (failing Load fs)"
  by (induction fs) (simp_all add: List.map_filter_simps failing_def Suc_diff_le split: option.split)

lemma fold_max_Max:
  fixes a :: "'a::linorder"
  shows "fold max xs a = Max (insert a (set xs))"
proof (induction xs arbitrary: a)
  case Nil
  show ?case by simp
next
  case (Cons x xs)
  have "Max (insert (max a x) (set xs)) = Max (insert a (insert x (set xs)))"
    by (cases "set xs = {}") (simp_all add: max.assoc max.commute max.left_commute)
  with Cons show ?case by (simp add: max.commute)
qed

section \<open>Properties of the record loop\<close>

lemma takeWhile_line:
  "newline \<notin> set l \<Longrightarrow> takeWhile (\<lambda>c. c \<noteq> newline) (l @ newline # rest) = l"
  by (induction l) auto

lemma dropWhile_line:
  "newline \<notin> set l \<Longrightarrow> dropWhile (\<lambda>c. c \<noteq> newline) (l @ newline # rest) = newline # rest"
  by (induction l) auto

lemma getline_line:
  "newline \<notin> set l \<Longrightarrow> getline (stream_of (l @ newline # rest)) = (l, stream_of rest)"
  by (simp add: getline_def stream_of_def takeWhile_line dropWhile_line)

lemma getline_last:
  "newline \<notin> set l \<Longrightarrow>
     getline (stream_of l) = (l, \<lparr>rdbuf = [], eofbit = True, failbit = (l = [])\<rparr>)"
proof -
  assume a: "newline \<notin> set l"
  have t: "takeWhile (\<lambda>c. c \<noteq> newline) l = l" using a by (induction l) auto
  have d: "dropWhile (\<lambda>c. c \<noteq> newline) l = []" using a by (induction l) auto
  show ?thesis by (simp add: getline_def stream_of_def t d)
qed

lemma good_stream_of: "good (stream_of cs)"
  by (simp add: good_def stream_of_def)

lemma record_loop_line:
  assumes "newline \<notin> set l" and "l \<noteq> []"
  shows "record_loop sd n ev k (stream_of (l @ newline # rest)) out =
         record_loop sd n ev (Suc k) (stream_of rest) (out @ [ev k (parse_record sd n l)])"
  using assms by (subst record_loop.simps) (simp add: good_stream_of getline_line)

lemma record_loop_empty_line:
  "record_loop sd n ev k (stream_of (newline # rest)) out = out"
  using getline_line [of "[]" rest]
  by (subst record_loop.simps) (simp add: good_stream_of)

lemma record_loop_last:
  assumes "newline \<notin> set l"
  shows "record_loop sd n ev k (stream_of l) out =
         (if l = [] then out else out @ [ev k (parse_record sd n l)])"
proof (cases "l = []")
  case True
  then show ?thesis
    using getline_last [of "[]"] by (subst record_loop.simps) (simp add: good_stream_of)
next
  case False
  have "record_loop sd n ev (Suc k) \<lparr>rdbuf = [], eofbit = True, failbit = False\<rparr> out' = out'"
    for out'
    by (subst record_loop.simps) (simp add: good_def)
  with False assms show ?thesis
    by (subst record_loop.simps) (simp add: good_stream_of getline_last)
qed

lemma split_lines_nonempty: "split_lines cs \<noteq> []"
  by (induction cs) (auto split: list.splits)

lemma split_lines_last: "newline \<notin> set l \<Longrightarrow> split_lines l = [l]"
  by (induction l) (auto split: list.splits)

lemma split_lines_line:
  "newline \<notin> set l \<Longrightarrow> split_lines (l @ newline # rest) = l # split_lines rest"
  by (induction l) (auto split: list.splits)

lemma records_of_last:
  "newline \<notin> set l \<Longrightarrow> records_of l = (if l = [] then [] else [l])"
  by (simp add: records_of_def split_lines_last)

lemma records_of_line:
  "newline \<notin> set l \<Longrightarrow>
     records_of (l @ newline # rest) = (if l = [] then [] else l # records_of rest)"
  by (simp add: records_of_def split_lines_line)

lemma content_cases:
  obtains (last) "newline \<notin> set cs"
  | (line) l rest where "cs = l @ newline # rest" "newline \<notin> set l"
proof (cases "newline \<in> set cs")
  case False
  then show ?thesis by (rule last)
next
  case True
  then obtain l rest where "cs = l @ newline # rest" "newline \<notin> set l"
    by (auto dest: split_list_first)
  then show ?thesis by (rule line)
qed

lemma record_loop_records:
  "record_loop sd n ev k (stream_of content) out =
     out @ map (\<lambda>(j, l). ev j (parse_record sd n l)) (enumerate k (records_of content))"
proof (induction content arbitrary: k out rule: length_induct)
  case (1 cs)
  show ?case
  proof (cases cs rule: content_cases)
    case last
    then show ?thesis by (simp add: record_loop_last records_of_last)
  next
    case (line l rest)
    show ?thesis
    proof (cases "l = []")
      case True
      have "records_of (newline # rest) = []"
        using records_of_line [of "[]" rest] by simp
      with True line show ?thesis by (simp add: record_loop_empty_line)
    next
      case False
      have "length rest < length cs" using line by simp
      with 1 have ih: "record_loop sd n ev (Suc k) (stream_of rest) out' =
          out' @ map (\<lambda>(j, l). ev j (parse_record sd n l)) (enumerate (Suc k) (records_of rest))"
        for out'
        by blast
      from line False show ?thesis
        by (simp add: record_loop_line records_of_line ih)
    qed
  qed
qed

lemma records_of_lines:
  assumes "list_all (\<lambda>l. l \<noteq> [] \<and> newline \<notin> set l) ls"
  shows "records_of (concat (map (\<lambda>l. l @ [newline]) ls) @ newline # rest) = ls"
    and "records_of (concat (map (\<lambda>l. l @ [newline]) ls)) = ls"
  using assms
  using records_of_line [of "[]" rest] records_of_last [of "[]"]
  by (induction ls) (simp_all add: records_of_line)

section \<open>Properties of the numeric extraction\<close>

lemma isspace_not_field:
  "isspace c \<Longrightarrow> \<not> isdigit c \<and> c \<noteq> CHR ''.'' \<and> c \<noteq> CHR ''e'' \<and> c \<noteq> CHR ''E'' \<and>
     c \<noteq> CHR ''+'' \<and> c \<noteq> CHR ''-''"
  by (auto simp: isspace_def isdigit_def)

lemma scan_float_stop:
  "rest = [] \<or> isspace (hd rest) \<Longrightarrow> scan_float fm fd fs rest = ([], rest)"
  by (cases rest) (auto dest: isspace_not_field)

lemma not_digit [simp]:
  "\<not> isdigit CHR ''e''" "\<not> isdigit CHR ''E''" "\<not> isdigit CHR ''.''"
  "\<not> isdigit CHR ''+''" "\<not> isdigit CHR ''-''"
  by (simp_all add: isdigit_def)

lemma scan_float_digit:
  "isdigit c \<Longrightarrow> scan_float fm fd fs (c # cs) =
     (c # fst (scan_float True fd fs cs), snd (scan_float True fd fs cs))"
  by (simp split: prod.split)

lemma scan_float_point:
  "\<not> isdigit c \<Longrightarrow> c = CHR ''.'' \<Longrightarrow> \<not> fd \<Longrightarrow> \<not> fs \<Longrightarrow>
     scan_float fm fd fs (c # cs) =
       (c # fst (scan_float fm True fs cs), snd (scan_float fm True fs cs))"
  by (simp split: prod.split)

lemma scan_float_exp_end:
  "exp_mark fm fd fs c \<Longrightarrow> scan_float fm fd fs [c] = ([c], [])"
  by (auto simp: exp_mark_def)

lemma scan_float_exp_sign:
  "exp_mark fm fd fs c \<Longrightarrow> s = CHR ''+'' \<or> s = CHR ''-'' \<Longrightarrow>
     scan_float fm fd fs (c # s # cs) =
       (c # s # fst (scan_float fm fd True cs), snd (scan_float fm fd True cs))"
  by (auto simp: exp_mark_def split: prod.split)

lemma scan_float_exp_nosign:
  "exp_mark fm fd fs c \<Longrightarrow> \<not> (s = CHR ''+'' \<or> s = CHR ''-'') \<Longrightarrow>
     scan_float fm fd fs (c # s # cs) =
       (c # fst (scan_float fm fd True (s # cs)), snd (scan_float fm fd True (s # cs)))"
  by (auto simp: exp_mark_def split: prod.split)

lemma scan_float_other:
  "\<not> isdigit c \<Longrightarrow> \<not> (c = CHR ''.'' \<and> \<not> fd \<and> \<not> fs) \<Longrightarrow> \<not> exp_mark fm fd fs c \<Longrightarrow>
     scan_float fm fd fs (c # cs) = ([], c # cs)"
  by (auto simp: exp_mark_def)

declare scan_float.simps [simp del]

lemma scan_float_append:
  "scan_float fm fd fs t = (t, []) \<Longrightarrow> rest = [] \<or> isspace (hd rest) \<Longrightarrow>
     scan_float fm fd fs (t @ rest) = (t, rest)"
proof (induction fm fd fs t rule: scan_float.induct)
  case (1 fm fd fs)
  then show ?case by (simp add: scan_float_stop)
next
  case (2 fm fd fs c cs)
  note stop = \<open>rest = [] \<or> isspace (hd rest)\<close>
  note whole = \<open>scan_float fm fd fs (c # cs) = (c # cs, [])\<close>
  show ?case
  proof (cases "isdigit c")
    case True
    from whole True have "scan_float True fd fs cs = (cs, [])"
      by (simp add: scan_float_digit prod_eq_iff)
    with 2(1) True stop have "scan_float True fd fs (cs @ rest) = (cs, rest)"
      by simp
    with True show ?thesis
      by (simp add: scan_float_digit)
  next
    case nd: False
    show ?thesis
    proof (cases "c = CHR ''.'' \<and> \<not> fd \<and> \<not> fs")
      case True
      from whole True nd have "scan_float fm True fs cs = (cs, [])"
        by (simp add: scan_float_point prod_eq_iff)
      with 2(2) True nd stop have "scan_float fm True fs (cs @ rest) = (cs, rest)"
        by simp
      with True nd show ?thesis
        by (simp add: scan_float_point)
    next
      case np: False
      show ?thesis
      proof (cases "exp_mark fm fd fs c")
        case False
        with nd np whole show ?thesis
          by (simp add: scan_float_other)
      next
        case e: True
        then have e': "(c = CHR ''e'' \<or> c = CHR ''E'') \<and> \<not> fs \<and> fm"
          by (simp add: exp_mark_def)
        show ?thesis
        proof (cases cs)
          case Nil
          show ?thesis
          proof (cases rest)
            case Nil
            with \<open>cs = []\<close> e show ?thesis by (simp add: scan_float_exp_end)
          next
            case (Cons s r)
            with stop have sp: "isspace s" by simp
            then have ns: "\<not> (s = CHR ''+'' \<or> s = CHR ''-'')"
              by (auto dest: isspace_not_field)
            have "scan_float fm fd True (s # r) = ([], s # r)"
              using sp scan_float_stop [of "s # r" fm fd True] by simp
            with e ns Cons \<open>cs = []\<close> show ?thesis
              by (simp add: scan_float_exp_nosign)
          qed
        next
          case (Cons s cs')
          show ?thesis
          proof (cases "s = CHR ''+'' \<or> s = CHR ''-''")
            case True
            from whole e True Cons have "scan_float fm fd True cs' = (cs', [])"
              by (simp add: scan_float_exp_sign prod_eq_iff)
            with 2(3) [OF nd np e' Cons True] stop
            have "scan_float fm fd True (cs' @ rest) = (cs', rest)"
              by simp
            with e True Cons show ?thesis
              by (simp add: scan_float_exp_sign)
          next
            case False
            from whole e False Cons have "scan_float fm fd True cs = (cs, [])"
              by (simp add: scan_float_exp_nosign prod_eq_iff)
            with 2(4) [OF nd np e' Cons False] stop
            have "scan_float fm fd True (cs @ rest) = (cs, rest)"
              by simp
            with e False Cons show ?thesis
              by (simp add: scan_float_exp_nosign)
          qed
        qed
      qed
    qed
  qed
qed

lemma num_get_field_append:
  assumes "num_get_field t = (t, [])" and "rest = [] \<or> isspace (hd rest)"
  shows "num_get_field (t @ rest) = (t, rest)"
proof (cases t)
  case Nil
  with assms(2) show ?thesis
    by (cases rest) (auto simp: num_get_field_def scan_float_stop dest: isspace_not_field)
next
  case (Cons c cs)
  show ?thesis
  proof (cases "c = CHR ''+'' \<or> c = CHR ''-''")
    case True
    with assms(1) Cons have "scan_float False False False cs = (cs, [])"
      by (auto simp: num_get_field_def split: prod.splits)
    then have "scan_float False False False (cs @ rest) = (cs, rest)"
      using assms(2) by (rule scan_float_append)
    with True Cons show ?thesis
      by (simp add: num_get_field_def)
  next
    case False
    with assms(1) Cons have "scan_float False False False (c # cs) = (c # cs, [])"
      by (simp add: num_get_field_def)
    then have "scan_float False False False ((c # cs) @ rest) = (c # cs, rest)"
      using assms(2) by (rule scan_float_append)
    with False Cons show ?thesis
      by (simp add: num_get_field_def)
  qed
qed

lemma numeric_hd:
  assumes "num_get_field t = (t, [])" and "t \<noteq> []"
  shows "\<not> isspace (hd t)"
proof
  assume sp: "isspace (hd t)"
  from assms(2) obtain c cs where t: "t = c # cs" by (cases t) auto
  with sp have "isspace c" by simp
  then have "num_get_field (c # cs) = ([], c # cs)"
    using scan_float_stop [of "c # cs" False False False]
    by (auto simp: num_get_field_def dest: isspace_not_field)
  with assms(1) t show False by simp
qed

lemma dropWhile_blank:
  "blank w \<Longrightarrow> dropWhile isspace (w @ cs) = dropWhile isspace cs"
  by (induction w) (auto simp: blank_def)

lemma extract_token:
  assumes "good s" and "rdbuf s = w @ t @ rest" and "blank w" and "numeric sd t"
    and "rest = [] \<or> isspace (hd rest)"
  shows "extract_double sd s x =
           (\<lparr>rdbuf = rest, eofbit = (rest = []), failbit = False\<rparr>, stored sd t)"
proof -
  from assms(4) have t: "t \<noteq> []" "num_get_field t = (t, [])"
    and c: "\<exists>v. sd t = Converted v"
    by (auto simp: numeric_def split: conv.splits)
  from t have "\<not> isspace (hd t)" by (simp add: numeric_hd)
  with t(1) have d: "dropWhile isspace (w @ t @ rest) = t @ rest"
    using assms(3) by (cases t) (simp_all add: dropWhile_blank)
  from t assms(5) have f: "num_get_field (t @ rest) = (t, rest)"
    by (simp add: num_get_field_append)
  from c obtain v where "sd t = Converted v" ..
  with assms(1,2) d f t(1) show ?thesis
    by (simp add: extract_double_def stored_def)
qed


lemma read_coords_eof: "eofbit s \<Longrightarrow> read_coords sd n i s data = data"
  by (subst read_coords.simps) simp

lemma read_coords_blank:
  assumes "\<not> failbit s" and "blank (rdbuf s)"
  shows "read_coords sd n i s data = data"
proof (cases "\<not> eofbit s \<and> i < n")
  case False
  then show ?thesis by (subst read_coords.simps) auto
next
  case True
  have "dropWhile isspace (rdbuf s) = []"
    using assms(2) dropWhile_blank [of "rdbuf s" "[]"] by simp
  with True assms(1) have
    "extract_double sd s (data ! i) = (\<lparr>rdbuf = [], eofbit = True, failbit = True\<rparr>, data ! i)"
    by (simp add: extract_double_def good_def)
  with True show ?thesis
    by (subst read_coords.simps) (simp add: read_coords_eof)
qed

lemma tokens_line_Nil: "tokens_line [] rest = rest"
  by (simp add: tokens_line_def)

lemma tokens_line_Cons: "tokens_line ((w, t) # wts) rest = w @ t @ tokens_line wts rest"
  by (simp add: tokens_line_def)

lemma numeric_nonempty: "numeric sd t \<Longrightarrow> t \<noteq> []"
  by (simp add: numeric_def)

lemma delimited_Cons:
  "delimited ((w, t) # wts) \<Longrightarrow>
     blank w \<and> delimited wts \<and> (wts \<noteq> [] \<longrightarrow> fst (hd wts) \<noteq> [] \<and> blank (fst (hd wts)))"
  by (cases wts) (auto simp: delimited_def)

lemma tokens_line_stop:
  assumes "delimited ((w, t) # wts)" and "wts \<noteq> [] \<or> rest = [] \<or> isspace (hd rest)"
  shows "tokens_line wts rest = [] \<or> isspace (hd (tokens_line wts rest))"
proof (cases wts)
  case Nil
  with assms(2) show ?thesis by (simp add: tokens_line_Nil)
next
  case (Cons p ps)
  obtain w' t' where p: "p = (w', t')" by (cases p)
  from assms(1) Cons p have "w' \<noteq> []" "blank w'"
    by (auto dest: delimited_Cons)
  then have "isspace (hd w')" by (cases w') (auto simp: blank_def)
  with \<open>w' \<noteq> []\<close> Cons p show ?thesis by (simp add: tokens_line_Cons)
qed

lemma tokens_line_empty:
  assumes "list_all (\<lambda>(w, t). numeric sd t) wts" and "tokens_line wts rest = []"
  shows "wts = [] \<and> rest = []"
  using assms by (cases wts) (auto simp: tokens_line_Nil tokens_line_Cons dest: numeric_nonempty)

lemma read_coords_tokens:
  assumes "list_all (\<lambda>(w, t). numeric sd t) wts" and "delimited wts"
    and "good s" and "rdbuf s = tokens_line wts rest"
    and "wts = [] \<or> rest = [] \<or> isspace (hd rest)"
    and "length data = n" and "i \<le> n"
  shows "read_coords sd n i s data =
     (if n \<le> i + length wts then take i data @ take (n - i) (map (\<lambda>(w, t). stored sd t) wts)
      else read_coords sd n (i + length wts) (if wts = [] then s else after rest)
             (take i data @ map (\<lambda>(w, t). stored sd t) wts @ drop (i + length wts) data))"
  using assms
proof (induction wts arbitrary: s i data)
  case Nil
  then show ?case
    by (cases "i = n") (simp_all add: read_coords.simps [of sd n n])
next
  case (Cons p wts)
  obtain w t where p: "p = (w, t)" by (cases p)
  let ?v = "stored sd t"
  let ?vals = "map (\<lambda>(w, t). stored sd t) wts"
  let ?rest1 = "tokens_line wts rest"
  from Cons.prems p have num: "numeric sd t" and nums: "list_all (\<lambda>(w, t). numeric sd t) wts"
    by simp_all
  from Cons.prems(2) p have bl: "blank w" and del: "delimited wts"
    by (auto dest: delimited_Cons)
  from Cons.prems(5) have "wts \<noteq> [] \<or> rest = [] \<or> isspace (hd rest)" by auto
  with Cons.prems(2) p have stop: "?rest1 = [] \<or> isspace (hd ?rest1)"
    by (simp add: tokens_line_stop)
  have buf: "rdbuf s = w @ t @ ?rest1"
    using Cons.prems(4) p by (simp add: tokens_line_Cons)
  have ex: "extract_double sd s x = (after ?rest1, ?v)" for x
    unfolding after_def using Cons.prems(3) buf bl num stop by (rule extract_token)
  show ?case
  proof (cases "i = n")
    case True
    with Cons.prems(6) show ?thesis
      by (simp add: read_coords.simps [of sd n n])
  next
    case False
    with Cons.prems(7) have lt: "i < n" by simp
    from Cons.prems(3) have ne: "\<not> eofbit s" by (simp add: good_def)
    have step: "read_coords sd n i s data = read_coords sd n (Suc i) (after ?rest1) (data[i := ?v])"
      using lt ne by (subst read_coords.simps) (simp add: ex)
    have upd: "data[i := ?v] = take i data @ ?v # drop (Suc i) data"
      using lt Cons.prems(6) by (simp add: upd_conv_take_nth_drop)
    show ?thesis
    proof (cases "?rest1 = []")
      case True
      with nums have e: "wts = []" "rest = []" by (auto dest: tokens_line_empty)
      have "read_coords sd n (Suc i) (after ?rest1) (data[i := ?v]) = data[i := ?v]"
        using True by (simp add: read_coords_eof after_def)
      moreover have "read_coords sd n (Suc i) (after []) d = d" for d
        by (simp add: read_coords_eof after_def)
      ultimately show ?thesis
        using step upd e p lt Cons.prems(6) by (auto simp: tokens_line_Nil)
    next
      case ne1: False
      then have g: "good (after ?rest1)" by (simp add: good_def after_def)
      have b: "rdbuf (after ?rest1) = tokens_line wts rest" by (simp add: after_def)
      have st: "wts = [] \<or> rest = [] \<or> isspace (hd rest)"
        using Cons.prems(5) by auto
      have len: "length (data[i := ?v]) = n" using Cons.prems(6) by simp
      have le: "Suc i \<le> n" using lt by simp
      note ih = Cons.IH [OF nums del g b st len le]
      have tk: "take (Suc i) (data[i := ?v]) = take i data @ [?v]"
        using lt Cons.prems(6) by (simp add: upd)
      have dr: "drop (Suc i + length wts) (data[i := ?v]) = drop (Suc i + length wts) data"
        by simp
      have s': "(if wts = [] then after ?rest1 else after rest) = after rest"
        by (simp add: tokens_line_Nil)
      show ?thesis
        unfolding step ih tk dr s' using lt p
        by (auto simp: take_Cons' not_le)
    qed
  qed
qed


section \<open>Properties of the reduction\<close>

lemma exec_body:
  "foldl (exec_step ar ms data) st (body m) =
     st\<lparr>density_read := (density_read st)(m := density st),
        density := density st + term_of ar (ms ! m) data,
        count_read := (count_read st)(m := count st),
        count := count st + cnt_of (ms ! m)\<rparr>"
  by (simp add: body_def)

lemma serial_Suc: "serial (Suc k) = serial k @ body k"
  by (simp add: serial_def)

lemma weighted_sum_take_Suc:
  "k < length ms \<Longrightarrow>
     weighted_sum ar (take (Suc k) ms) data =
       weighted_sum ar (take k ms) data + term_of ar (ms ! k) data"
  by (simp add: weighted_sum_def take_Suc_conv_app_nth)

lemma total_weight_take_Suc:
  "k < length ms \<Longrightarrow> total_weight (take (Suc k) ms) = total_weight (take k ms) + cnt_of (ms ! k)"
  by (simp add: total_weight_def take_Suc_conv_app_nth)

lemma run_serial_prefix:
  "k \<le> length ms \<Longrightarrow>
     density (run_reduction ar (serial k) ms data) = weighted_sum ar (take k ms) data \<and>
     count (run_reduction ar (serial k) ms data) = total_weight (take k ms)"
proof (induction k)
  case 0
  show ?case
    by (simp add: run_reduction_def serial_def reduction_init_def weighted_sum_def
        total_weight_def)
next
  case (Suc k)
  then have "k < length ms" and
    ih: "density (run_reduction ar (serial k) ms data) = weighted_sum ar (take k ms) data"
        "count (run_reduction ar (serial k) ms data) = total_weight (take k ms)"
    by simp_all
  have "run_reduction ar (serial (Suc k)) ms data =
        foldl (exec_step ar ms data) (run_reduction ar (serial k) ms data) (body k)"
    by (simp add: run_reduction_def serial_Suc)
  with \<open>k < length ms\<close> ih show ?case
    by (simp add: exec_body weighted_sum_take_Suc total_weight_take_Suc)
qed

lemma Evaluate_serial:
  "Evaluate ar (serial (length ms)) ms data = weighted_average ar ms data"
  using run_serial_prefix [of "length ms" ms ar data]
  by (simp add: Evaluate_def weighted_average_def)

lemma filter_body:
  "filter (\<lambda>x. iteration x = m) (body k) = (if k = m then body k else [])"
  by (simp add: body_def)

lemma filter_serial:
  "filter (\<lambda>x. iteration x = m) (serial n) = (if m < n then body m else [])"
  by (induction n) (auto simp: serial_Suc filter_body serial_def)

lemma iteration_serial: "list_all (\<lambda>x. iteration x < n) (serial n)"
proof (induction n)
  case 0
  show ?case by (simp add: serial_def)
next
  case (Suc n)
  have "list_all (\<lambda>x. iteration x < Suc n) (serial n)"
    using Suc by (auto simp: list_all_iff)
  then show ?case by (simp add: serial_Suc body_def)
qed

lemma interleaving_serial: "interleaving n (serial n)"
  using iteration_serial [of n] by (simp add: interleaving_def filter_serial list_all_iff)

lemma interleaving_racy: "interleaving (length two_models) racy"
  by (simp add: interleaving_def racy_def two_models_def body_def upt_rec)

lemma run_racy:
  "density (run_reduction exact racy two_models pt) = 4 / 5"
  "count (run_reduction exact racy two_models pt) = 1"
  by (simp_all add: run_reduction_def racy_def two_models_def reduction_init_def term_of_def
      cnt_of_def exact_def const_tree_def)

lemma sums_two_models:
  "weighted_sum exact two_models pt = 2"
  "total_weight two_models = 4"
  by (simp_all add: weighted_sum_def total_weight_def two_models_def term_of_def
      cnt_of_def exact_def const_tree_def)

section \<open>Properties of the program\<close>

lemma main_run:
  assumes "model_file e = Some files"
    and "0 < dataSize (load_models (data_Load e) files (loader_init (length files)))"
    and "input_content e = Some content"
    and "output_bound e"
  shows "exit_status (main e) = Returned \<and>
         estimates (main e) =
           record_loop (strtod_fn e)
             (dataSize (load_models (data_Load e) files (loader_init (length files))))
             (\<lambda>k data. Evaluate (arithmetic e) (omp_schedule e k)
                (models (load_models (data_Load e) files (loader_init (length files)))) data)
             0 (stream_of content) []"
  using assms
  by (auto simp: main_def main_output_def Log_Assert_def Log_Fatal_def Let_def
      input_content_def output_bound_def split: option.splits)

section \<open>Evaluated examples\<close>

lemma numeric_1: "numeric strtod_dec ''1''"
  by (simp add: numeric_def num_get_field_def scan_float.simps isdigit_def strtod_dec_def
      strip_sign_def decimal_def digit_value_def in_range_def DBL_MAX_def)

lemma numeric_2_5: "numeric strtod_dec ''2.5''"
  by (simp add: numeric_def num_get_field_def scan_float.simps isdigit_def strtod_dec_def
      strip_sign_def decimal_def digit_value_def in_range_def DBL_MAX_def)

lemma stored_examples: "stored strtod_dec ''2.5'' = 5 / 2" "stored strtod_dec ''1'' = 1"
  by (simp_all add: stored_def isdigit_def strtod_dec_def
      strip_sign_def decimal_def digit_value_def in_range_def DBL_MAX_def)






lemma demo_loaded:
  "dataSize (load_models demo_Load [''a.xml'', ''missing.xml'', ''b.xml''] (loader_init n)) = 2"
  "models (load_models demo_Load [''a.xml'', ''missing.xml'', ''b.xml''] (loader_init n)) =
     two_models"
  by (simp_all add: load_models_dataSize load_models_models loader_init_def demo_Load_def
      List.map_filter_simps const_tree_def two_models_def)

lemma replicate_two: "replicate 2 x = [x, x]"
  by (simp add: numeral_2_eq_2)

lemma length_two_models: "length two_models = 2"
  by (simp add: two_models_def)

lemma average_two_models: "weighted_average exact two_models pt = 1 / 2"
proof -
  have "narrow exact x = x" "of_size exact 4 = 4" for x
    by (simp_all add: exact_def)
  then show ?thesis
    by (simp add: weighted_average_def sums_two_models)
qed

section \<open>Claims about loading\<close>

text \<open>
  C7. After loading, \<open>dataSize\<close> is the maximum of \<open>MaxVals().n_elem\<close> over the
  models that loaded, and 0 when none did: identifiers that failed to load contribute
  nothing.
\<close>

theorem dataSize_max_of_loaded:
  "dataSize (load_models L files (loader_init n)) =
     Max (insert 0 (set (map MaxVals_n_elem (List.map_filter L files))))"
  by (simp add: load_models_dataSize fold_max_Max loader_init_def)

theorem dataSize_max_of_loaded_witness:
  "dataSize (load_models demo_Load [''a.xml'', ''missing.xml'', ''b.xml''] (loader_init 3)) = 2"
  using dataSize_max_of_loaded [of demo_Load "[''a.xml'', ''missing.xml'', ''b.xml'']" 3]
  by (simp add: demo_Load_def List.map_filter_simps const_tree_def)

text \<open>
  C2. For a list of N identifiers of which K fail to load, the loading loop ends with
  exactly the N - K models that loaded, in order; it has written one warning for each
  failing identifier, naming it; and it has attempted every identifier of the list, so
  a failure does not stop the loop.
\<close>

theorem load_models_skips_failures:
  "models (load_models L files (loader_init n)) = List.map_filter L files \<and>
   length (models (load_models L files (loader_init n))) =
     length files - length (failing L files) \<and>
   warnings (msgs (load_models L files (loader_init n))) =
     map (\<lambda>f. (Warn, [Str '' failed loading '', Str f])) (failing L files) \<and>
   attempted (msgs (load_models L files (loader_init n))) = files"
proof -
  have init: "models (loader_init n :: 'a loader) = []"
    "warnings (msgs (loader_init n :: 'a loader)) = []"
    "attempted (msgs (loader_init n :: 'a loader)) = []"
    by (simp_all add: loader_init_def warnings_def)
  show ?thesis
    by (simp add: load_models_models load_models_warnings load_models_attempted
        length_map_filter_failing init)
qed

section \<open>Claims about the fatal exits\<close>

text \<open>
  C3. If no model loaded, or \<open>dataSize\<close> is 0 after loading, the process is
  terminated by the assertion of line 86: its diagnostic is the last entry of the log and
  nothing is written to the output.
\<close>

theorem empty_ensemble_is_fatal:
  assumes "model_file e = Some files"
    and "List.map_filter (data_Load e) files = [] \<or>
         dataSize (load_models (data_Load e) files (loader_init (length files))) = 0"
  shows "exit_status (main e) = Terminated \<and> estimates (main e) = [] \<and>
         last (diagnostics (main e)) = (AssertFailed, [])"
proof -
  have "dataSize (load_models (data_Load e) files (loader_init (length files))) = 0"
    using assms(2) by (auto simp: load_models_dataSize loader_init_def)
  with assms(1) show ?thesis
    by (simp add: main_def Log_Assert_def)
qed

theorem empty_ensemble_is_fatal_witness:
  "exit_status (main (demo_env\<lparr>model_file := Some [''missing.xml'']\<rparr>)) = Terminated \<and>
   estimates (main (demo_env\<lparr>model_file := Some [''missing.xml'']\<rparr>)) = [] \<and>
   last (diagnostics (main (demo_env\<lparr>model_file := Some [''missing.xml'']\<rparr>))) =
     (AssertFailed, [])"
  using empty_ensemble_is_fatal
    [of "demo_env\<lparr>model_file := Some [''missing.xml'']\<rparr>" "[''missing.xml'']"]
  by (simp add: demo_env_def demo_Load_def List.map_filter_simps)



section \<open>Claims about the record loop\<close>

text \<open>
  C5. When the models have loaded and the input and the output are bound, \<open>main\<close>
  returns, and the values it has written are the estimates of the records of the input,
  in order: the lines before the first empty line, or all lines when there is none. So
  for non-empty lines \<open>ls\<close> followed by an empty line, exactly the estimates of
  \<open>ls\<close> are written, whatever follows the empty line; and for non-empty lines
  \<open>ls\<close> up to the end of the input, those of \<open>ls\<close>.
\<close>

theorem record_loop_until_empty_line:
  assumes "model_file e = Some files"
    and "0 < dataSize (load_models (data_Load e) files (loader_init (length files)))"
    and "input_content e = Some content"
    and "output_bound e"
  shows "exit_status (main e) = Returned \<and>
         estimates (main e) =
           map (\<lambda>(k, l).
                  Evaluate (arithmetic e) (omp_schedule e k)
                    (models (load_models (data_Load e) files (loader_init (length files))))
                    (parse_record (strtod_fn e)
                       (dataSize (load_models (data_Load e) files (loader_init (length files))))
                       l))
             (enumerate 0 (records_of content)) \<and>
         (list_all (\<lambda>l. l \<noteq> [] \<and> newline \<notin> set l) ls \<longrightarrow>
            records_of (concat (map (\<lambda>l. l @ [newline]) ls) @ newline # rest) = ls \<and>
            records_of (concat (map (\<lambda>l. l @ [newline]) ls)) = ls)"
  using main_run [OF assms] records_of_lines(1) [of ls rest] records_of_lines(2) [of ls]
  by (simp add: record_loop_records)

theorem record_loop_until_empty_line_witness:
  "exit_status (main demo_env) = Returned \<and>
   records_of (cin demo_env) = [''1 2'', ''3''] \<and>
   estimates (main demo_env) = [1 / 2, 1 / 2]"
proof -
  let ?fs = "[''a.xml'', ''missing.xml'', ''b.xml'']"
  let ?ls = "[''1 2'', ''3'']"
  let ?rest = "''4 4'' @ [newline]"
  let ?content = "concat (map (\<lambda>l. l @ [newline]) ?ls) @ newline # ?rest"
  have h1: "model_file demo_env = Some ?fs"
    by (simp add: demo_env_def)
  have h2: "0 < dataSize (load_models (data_Load demo_env) ?fs (loader_init (length ?fs)))"
    by (simp add: demo_env_def demo_loaded del: load_models.simps)
  have h3: "input_content demo_env = Some ?content"
    by (simp add: demo_env_def input_content_def)
  have h4: "output_bound demo_env"
    by (simp add: demo_env_def output_bound_def)
  have h5: "list_all (\<lambda>l. l \<noteq> [] \<and> newline \<notin> set l) ?ls"
    by (simp add: newline_def)
  have c: "cin demo_env = ?content"
    by (simp add: demo_env_def)
  have ev: "Evaluate (arithmetic demo_env) (omp_schedule demo_env k) two_models pt = 1 / 2"
    for k pt
    using Evaluate_serial [of exact two_models pt]
    by (simp only: length_two_models) (simp add: demo_env_def average_two_models)
  have ms: "models (load_models (data_Load demo_env) ?fs (loader_init (length ?fs))) = two_models"
    by (simp add: demo_env_def demo_loaded del: load_models.simps)
  note T = record_loop_until_empty_line [OF h1 h2 h3 h4, of ?ls ?rest]
  from T h5 have r: "records_of ?content = ?ls"
    by blast
  from T show ?thesis
    unfolding ms c r by (simp add: ev enumerate_eq_zip)
qed

text \<open>
  C9. A line that is not empty and holds only whitespace does not end the loop: it is
  read as the point whose coordinates are all zero, and one estimate is written for it,
  whether the line is followed by a newline or ends the input. An empty line ends the
  loop.
\<close>

theorem blank_line_is_a_record:
  assumes "l \<noteq> []" and "blank l" and "newline \<notin> set l"
  shows "parse_record sd n l = replicate (unat n) 0 \<and>
         record_loop sd n ev k (stream_of (l @ newline # rest)) out =
           record_loop sd n ev (Suc k) (stream_of rest) (out @ [ev k (replicate (unat n) 0)]) \<and>
         record_loop sd n ev k (stream_of l) out = out @ [ev k (replicate (unat n) 0)] \<and>
         record_loop sd n ev k (stream_of (newline # rest)) out = out"
proof -
  have p: "parse_record sd n l = replicate (unat n) 0"
    using assms(2) by (simp add: parse_record_def read_coords_blank stream_of_def)
  with assms(1,3) show ?thesis
    by (simp add: record_loop_line record_loop_last record_loop_empty_line)
qed

theorem blank_line_is_a_record_witness:
  "parse_record strtod_dec 2 [CHR '' '', CHR 0x09] = [0, 0] \<and>
   record_loop strtod_dec 2 (\<lambda>k. Evaluate exact (serial 2) two_models) 0
     (stream_of ([CHR '' '', CHR 0x09] @ newline # ''1 1'')) [] =
   record_loop strtod_dec 2 (\<lambda>k. Evaluate exact (serial 2) two_models) 1
     (stream_of ''1 1'') [Evaluate exact (serial 2) two_models [0, 0]]"
proof -
  let ?l = "[CHR '' '', CHR 0x09]"
  have h1: "?l \<noteq> []" by simp
  have h2: "blank ?l" by (simp add: blank_def isspace_def)
  have h3: "newline \<notin> set ?l" by (simp add: newline_def)
  have two: "unat (2 :: size_t) = Suc (Suc 0)" by simp
  from blank_line_is_a_record [OF h1 h2 h3, of strtod_dec 2 "\<lambda>k. Evaluate exact (serial 2) two_models" 0 "''1 1''" "[]"]
  show ?thesis
    by (simp add: replicate_two)
qed

section \<open>Claims about the parsing of a record\<close>

text \<open>
  C6. For a record of numeric tokens delimited by whitespace, the point has
  \<open>dataSize\<close> coordinates: the values of the tokens from left to right, cut after the
  first \<open>dataSize\<close> of them, and zero at the positions for which there is no token.
\<close>

theorem tokens_zero_padded_and_truncated:
  assumes "list_all (\<lambda>(w, t). numeric sd t) wts" and "delimited wts" and "blank trailing"
  shows "parse_record sd n (tokens_line wts trailing) =
           take (unat n) (map (\<lambda>(w, t). stored sd t) wts) @
           replicate (unat n - length wts) 0"
proof -
  let ?s = "stream_of (tokens_line wts trailing)"
  let ?vals = "map (\<lambda>(w, t). stored sd t) wts"
  have st: "wts = [] \<or> trailing = [] \<or> isspace (hd trailing)"
    using assms(3) by (cases trailing) (auto simp: blank_def)
  have g: "good ?s" by (rule good_stream_of)
  have b: "rdbuf ?s = tokens_line wts trailing" by (simp add: stream_of_def)
  have len: "length (replicate (unat n) (0::'a)) = unat n" by simp
  note G = read_coords_tokens [OF assms(1,2) g b st len, where i = 0, simplified]
  show ?thesis
  proof (cases "unat n \<le> length wts")
    case True
    with G show ?thesis by (simp add: parse_record_def)
  next
    case False
    have nf: "\<not> failbit (if wts = [] then ?s else after trailing)"
      by (simp add: stream_of_def after_def)
    have bl: "blank (rdbuf (if wts = [] then ?s else after trailing))"
      using assms(3) by (simp add: stream_of_def after_def tokens_line_Nil)
    from False G show ?thesis
      by (simp add: parse_record_def read_coords_blank [OF nf bl])
  qed
qed

theorem tokens_zero_padded_and_truncated_witness:
  "parse_record strtod_dec 3 ''1 2.5 '' = [1, 5 / 2, 0] \<and>
   parse_record strtod_dec 1 ''1 2.5 '' = [1]"
proof -
  let ?wts = "[([], ''1''), ('' '', ''2.5'')]"
  have h1: "list_all (\<lambda>(w, t). numeric strtod_dec t) ?wts"
    by (simp add: numeric_1 numeric_2_5)
  have h2: "delimited ?wts" by (simp add: delimited_def blank_def isspace_def)
  have h3: "blank '' ''" by (simp add: blank_def isspace_def)
  have l: "tokens_line ?wts '' '' = ''1 2.5 ''" by (simp add: tokens_line_def)
  from tokens_zero_padded_and_truncated [OF h1 h2 h3, of 3]
       tokens_zero_padded_and_truncated [OF h1 h2 h3, of 1]
  show ?thesis
    by (simp add: l stored_examples)
qed

section \<open>Claims about the reduction\<close>

text \<open>
  C1. The value written for a point is the weighted average
  \<open>(\<Sum> v * w) / (\<Sum> w)\<close>, accumulated in \<open>long double\<close> and narrowed at the end, when
  the iterations run one after the other (\<open>Evaluate_serial\<close>). It is not in every
  execution of the loop: for the two models of weights 3 and 1 and values 2/5 and 4/5,
  the execution \<open>racy\<close> writes 4/5, and the weighted average is 1/2.
\<close>

theorem Evaluate_lost_update:
  "interleaving (length two_models) racy \<and>
   Evaluate exact racy two_models [1, 2] = 4 / 5 \<and>
   weighted_average exact two_models [1, 2] = 1 / 2"
proof -
  have conv: "narrow exact x = x" "of_size exact 1 = 1" "of_size exact 4 = 4" for x
    by (simp_all add: exact_def)
  show ?thesis
    by (simp add: interleaving_racy Evaluate_def weighted_average_def run_racy sums_two_models
        conv)
qed

text \<open>
  C4. The accumulation is by plain reads and writes of the shared variables: in the
  execution \<open>racy\<close> one update of each accumulator is lost, \<open>count\<close> ends as 1 where
  the sum of the weights is 4, and \<open>density\<close> as 4/5 where the weighted sum is 2.
\<close>

theorem unsynchronized_accumulators:
  "interleaving (length two_models) racy \<and>
   count (run_reduction exact racy two_models [1, 2]) = 1 \<and>
   total_weight two_models = 4 \<and>
   density (run_reduction exact racy two_models [1, 2]) = 4 / 5 \<and>
   weighted_sum exact two_models [1, 2] = 2"
  by (simp add: interleaving_racy run_racy sums_two_models)

end
